theory Spec2Isabelle
  imports Main
begin

section \<open>Window records and host state (App.js)\<close>

text \<open>
  The window host is the root component \<open>App\<close>. Its state, as far as the window
  manager is concerned, is the pair of React state cells \<open>windows\<close> (a list of window
  records) and \<open>activeWindowId\<close> (a string or \<open>null\<close>).

  Modelling decisions:
  \<^item> JavaScript numbers that hold pixel positions, sizes and stacking indices are
    modelled as unbounded integers. The \<open>width\<close> and \<open>height\<close> of a record can also
    be \<open>undefined\<close> or \<open>NaN\<close> (see the default table below), so they have the type
    \<open>jsnum\<close>; its \<open>title\<close> can be \<open>undefined\<close> and is an option.
  \<^item> The fields \<open>id\<close> and \<open>type\<close> of a record are called \<open>wid\<close> and
    \<open>wtype\<close> here.
  \<^item> \<open>openWindow\<close> creates records without a \<open>maximized\<close> field; the absent field
    is falsy everywhere it is read (\<open>!win.maximized\<close>, \<open>maximized ? ... : ...\<close>) and is
    modelled as \<open>False\<close>.
  \<^item> \<open>Date.now()\<close> is an input of \<open>openWindow\<close>: the natural number \<open>now\<close>.
  \<^item> A state updater \<open>setWindows (prev => ...)\<close> becomes a function on the host state;
    the updaters queued by one handler are applied in the order the handler queues them.
\<close>

datatype jsnum = Num int | NaN | Undefined

text \<open>
  \<open>w + d\<close> for a number \<open>d\<close>, \<open>Math.max(m, v)\<close> for a number \<open>m\<close>, and the
  comparison \<open>v >= m\<close>: \<open>undefined\<close> converts to \<open>NaN\<close>, arithmetic on \<open>NaN\<close>
  gives \<open>NaN\<close>, and every comparison with \<open>NaN\<close> is false.
\<close>

fun jsAdd :: "jsnum \<Rightarrow> int \<Rightarrow> jsnum" where
  "jsAdd (Num a) d = Num (a + d)"
| "jsAdd NaN d = NaN"
| "jsAdd Undefined d = NaN"

fun jsMax :: "int \<Rightarrow> jsnum \<Rightarrow> jsnum" where
  "jsMax m (Num a) = Num (max m a)"
| "jsMax m NaN = NaN"
| "jsMax m Undefined = NaN"

fun jsAtLeast :: "jsnum \<Rightarrow> int \<Rightarrow> bool" where
  "jsAtLeast (Num a) m = (m \<le> a)"
| "jsAtLeast NaN m = False"
| "jsAtLeast Undefined m = False"

record WindowRecord =
  wid :: string
  wtype :: string
  title :: "string option"
  width :: jsnum
  height :: jsnum
  x :: int
  y :: int
  minimized :: bool
  maximized :: bool
  zIndex :: int

record HostState =
  windows :: "WindowRecord list"
  activeWindowId :: "string option"

definition initialState :: HostState where
  "initialState = \<lparr>windows = [], activeWindowId = None\<rparr>"

subsection \<open>The default table\<close>

text \<open>
  \<open>DEFAULT_WINDOWS\<close> maps a window type to its title, width and height. It is an
  object literal, so the lookup \<open>DEFAULT_WINDOWS[type]\<close> finds the keys the table
  declares and also the property names every object inherits from \<open>Object.prototype\<close>.
  An inherited property is a function (or, for \<open>__proto__\<close>, the prototype object):
  it is truthy, so \<open>|| {title: 'Window', width: 680, height: 480}\<close> does not replace
  it, and its \<open>title\<close>, \<open>width\<close> and \<open>height\<close> are \<open>undefined\<close>. Any other type
  gets the generic entry.
\<close>

definition DEFAULT_WINDOWS :: "(string \<times> (string \<times> int \<times> int)) list" where
  "DEFAULT_WINDOWS =
    [(''chat'', (''Chat v0.98'', 760, 520)),
     (''research'', (''Research Lab v0.98'', 820, 560)),
     (''tools'', (''Tools v0.98'', 720, 520)),
     (''stats'', (''System Monitor v0.98'', 640, 480)),
     (''projects'', (''Projects v0.98'', 520, 420)),
     (''help'', (''Help v0.98'', 640, 480)),
     (''domain_discovery'', (''Domain Discovery'', 800, 550)),
     (''paper_summarizer'', (''Paper Summarizer'', 800, 550)),
     (''professor_finder'', (''Professor Finder'', 800, 550)),
     (''dataset_hub'', (''Dataset Hub'', 800, 550)),
     (''pretrained_models'', (''Model Architect'', 800, 550)),
     (''generate_code'', (''Research Engineer'', 800, 550))]"

definition objectPrototypeKeys :: "string list" where
  "objectPrototypeKeys =
    [''constructor'', ''hasOwnProperty'', ''isPrototypeOf'', ''propertyIsEnumerable'',
     ''toLocaleString'', ''toString'', ''valueOf'', ''__proto__'',
     ''__defineGetter__'', ''__defineSetter__'', ''__lookupGetter__'', ''__lookupSetter__'']"

definition defaultsFor :: "string \<Rightarrow> string option \<times> jsnum \<times> jsnum" where
  "defaultsFor ty =
    (case map_of DEFAULT_WINDOWS ty of
       Some d \<Rightarrow> (Some (fst d), Num (fst (snd d)), Num (snd (snd d)))
     | None \<Rightarrow>
         if ty \<in> set objectPrototypeKeys then (None, Undefined, Undefined)
         else (Some ''Window'', Num 680, Num 480))"

subsection \<open>Rendering the creation time into the id\<close>

definition digitChar :: "nat \<Rightarrow> char" where
  "digitChar d = ''0123456789'' ! d"

function decimal :: "nat \<Rightarrow> string" where
  "decimal n =
    (if n < 10 then [digitChar n]
     else decimal (n div 10) @ [digitChar (n mod 10)])"
  by pat_completeness auto
termination
  by (relation "measure (\<lambda>n. n)") auto

declare decimal.simps [simp del]

subsection \<open>Stacking order\<close>

text \<open>
  \<open>Math.max(0, ...prev.map((win) => win.zIndex || 0))\<close>: the largest stacking index in
  the list, and \<open>0\<close> when the list is empty or all indices are negative.
\<close>

definition zOrZero :: "WindowRecord \<Rightarrow> int" where
  "zOrZero win = (if zIndex win = 0 then 0 else zIndex win)"

definition maxZ :: "WindowRecord list \<Rightarrow> int" where
  "maxZ prev = foldr max (map zOrZero prev) 0"

subsection \<open>Host operations\<close>

definition bringToFront :: "string \<Rightarrow> HostState \<Rightarrow> HostState" where
  "bringToFront i st =
    st\<lparr>windows :=
         map (\<lambda>win. if wid win = i then win\<lparr>zIndex := maxZ (windows st) + 1\<rparr> else win)
           (windows st),
       activeWindowId := Some i\<rparr>"

definition openWindow :: "string \<Rightarrow> nat \<Rightarrow> HostState \<Rightarrow> HostState" where
  "openWindow ty now st =
    (let prev = windows st;
         existing = find (\<lambda>win. wtype win = ty) prev;
         mz = maxZ prev
     in case existing of
          Some e \<Rightarrow>
            st\<lparr>windows :=
                 map (\<lambda>win. if wtype win = ty
                             then win\<lparr>minimized := False, zIndex := mz + 1\<rparr>
                             else win) prev\<rparr>
        | None \<Rightarrow>
            (let defaults = defaultsFor ty;
                 offset = 30 * int (length prev);
                 newId = ty @ ''-'' @ decimal now
             in st\<lparr>windows :=
                     prev @
                     [\<lparr>wid = newId,
                       wtype = ty,
                       title = fst defaults,
                       width = fst (snd defaults),
                       height = snd (snd defaults),
                       x = 180 + offset,
                       y = 80 + offset,
                       minimized = False,
                       maximized = False,
                       zIndex = mz + 1\<rparr>]\<rparr>))"

definition closeWindow :: "string \<Rightarrow> HostState \<Rightarrow> HostState" where
  "closeWindow i st =
    st\<lparr>windows := filter (\<lambda>win. wid win \<noteq> i) (windows st),
       activeWindowId := (if activeWindowId st = Some i then None else activeWindowId st)\<rparr>"

definition minimizeWindow :: "string \<Rightarrow> HostState \<Rightarrow> HostState" where
  "minimizeWindow i st =
    st\<lparr>windows := map (\<lambda>win. if wid win = i then win\<lparr>minimized := True\<rparr> else win) (windows st),
       activeWindowId := (if activeWindowId st = Some i then None else activeWindowId st)\<rparr>"

definition maximizeWindow :: "string \<Rightarrow> HostState \<Rightarrow> HostState" where
  "maximizeWindow i st =
    bringToFront i
      (st\<lparr>windows :=
            map (\<lambda>win. if wid win = i
                        then win\<lparr>maximized := \<not> maximized win, minimized := False\<rparr>
                        else win) (windows st)\<rparr>)"

definition restoreWindow :: "string \<Rightarrow> HostState \<Rightarrow> HostState" where
  "restoreWindow i st =
    bringToFront i
      (st\<lparr>windows :=
            map (\<lambda>win. if wid win = i then win\<lparr>minimized := False\<rparr> else win) (windows st)\<rparr>)"

text \<open>\<open>pos\<close> is the object \<open>{x, y}\<close>, \<open>sz\<close> the object \<open>{width, height}\<close> (\<open>size\<close> in the source).\<close>

definition moveWindow :: "string \<Rightarrow> int \<times> int \<Rightarrow> HostState \<Rightarrow> HostState" where
  "moveWindow i pos st =
    st\<lparr>windows :=
         map (\<lambda>win. if wid win = i then win\<lparr>x := fst pos, y := snd pos\<rparr> else win) (windows st)\<rparr>"

definition resizeWindow :: "string \<Rightarrow> jsnum \<times> jsnum \<Rightarrow> HostState \<Rightarrow> HostState" where
  "resizeWindow i sz st =
    st\<lparr>windows :=
         map (\<lambda>win. if wid win = i then win\<lparr>width := fst sz, height := snd sz\<rparr> else win)
           (windows st)\<rparr>"

text \<open>
  \<open>handleLogout\<close> also removes the token and resets the user; of the window state it
  replaces the list by the empty list and leaves \<open>activeWindowId\<close> alone.
\<close>

definition handleLogout :: "HostState \<Rightarrow> HostState" where
  "handleLogout st = st\<lparr>windows := []\<rparr>"

subsection \<open>The auto-focus effect\<close>

text \<open>
  The effect with dependencies \<open>[windows, activeWindowId]\<close> runs after every render in
  which one of the two changed. One run is enough: after it the focused id is in the
  list, so the run it triggers changes nothing.
\<close>

definition autoFocus :: "HostState \<Rightarrow> HostState" where
  "autoFocus st =
    (if length (windows st) > 0 \<and> \<not> list_ex (\<lambda>w. Some (wid w) = activeWindowId st) (windows st)
     then st\<lparr>activeWindowId := Some (wid (last (windows st)))\<rparr>
     else st)"

subsection \<open>Sequences of host operations\<close>

datatype HostOp =
    Open string nat
  | Close string
  | Focus string
  | Minimize string
  | Maximize string
  | Restore string
  | Move string "int \<times> int"
  | Resize string "int \<times> int"

fun applyOp :: "HostOp \<Rightarrow> HostState \<Rightarrow> HostState" where
  "applyOp (Open ty now) st = openWindow ty now st"
| "applyOp (Close i) st = closeWindow i st"
| "applyOp (Focus i) st = bringToFront i st"
| "applyOp (Minimize i) st = minimizeWindow i st"
| "applyOp (Maximize i) st = maximizeWindow i st"
| "applyOp (Restore i) st = restoreWindow i st"
| "applyOp (Move i pos) st = moveWindow i pos st"
| "applyOp (Resize i sz) st = resizeWindow i (Num (fst sz), Num (snd sz)) st"

text \<open>
  As a host operation \<open>resize\<close> is given a size object of two numbers; the frame may
  pass \<open>NaN\<close> to \<open>resizeWindow\<close>, which is why that function takes \<open>jsnum\<close>s.
  One handler call is followed by the render and its effect.
\<close>

definition hostStep :: "HostOp \<Rightarrow> HostState \<Rightarrow> HostState" where
  "hostStep op st = autoFocus (applyOp op st)"

definition run :: "HostOp list \<Rightarrow> HostState \<Rightarrow> HostState" where
  "run ops st = foldl (\<lambda>s op. hostStep op s) st ops"

section \<open>The window frame (WindowFrame)\<close>

text \<open>
  A frame is rendered from one window record, which supplies the props \<open>id\<close>,
  \<open>width\<close>, \<open>height\<close>, \<open>minimized\<close> and \<open>maximized\<close>. Its own state is the two
  flags and the two refs. A pointer event is the pair \<open>(clientX, clientY)\<close>; the result
  of \<open>getBoundingClientRect\<close> is an input, the pair \<open>(left, top)\<close>.
\<close>

record FrameState =
  dragging :: bool
  resizing :: bool
  dragOffset :: "int \<times> int"
  resizeStart :: "int \<times> int \<times> jsnum \<times> jsnum"

definition initialFrame :: FrameState where
  "initialFrame = \<lparr>dragging = False, resizing = False, dragOffset = (0, 0), resizeStart = (0, 0, Num 0, Num 0)\<rparr>"

definition handleMove :: "FrameState \<Rightarrow> WindowRecord \<Rightarrow> int \<times> int \<Rightarrow> HostState \<Rightarrow> HostState" where
  "handleMove fs props event st =
    (let st1 =
           (if dragging fs \<and> \<not> maximized props
            then moveWindow (wid props)
                   (fst event - fst (dragOffset fs), snd event - snd (dragOffset fs)) st
            else st)
     in if resizing fs \<and> \<not> maximized props
        then (case resizeStart fs of
                (sx, sy, sw, sh) \<Rightarrow>
                  (let dx = fst event - sx;
                       dy = snd event - sy
                   in resizeWindow (wid props)
                        (jsMax 420 (jsAdd sw dx), jsMax 280 (jsAdd sh dy)) st1))
        else st1)"

definition handleUp :: "FrameState \<Rightarrow> FrameState" where
  "handleUp fs = fs\<lparr>dragging := False, resizing := False\<rparr>"

definition startDrag ::
  "WindowRecord \<Rightarrow> int \<times> int \<Rightarrow> int \<times> int \<Rightarrow> FrameState \<times> HostState \<Rightarrow> FrameState \<times> HostState" where
  "startDrag props event rect s =
    (case s of
       (fs, st) \<Rightarrow>
         if minimized props \<or> maximized props then (fs, st)
         else (fs\<lparr>dragOffset := (fst event - fst rect, snd event - snd rect), dragging := True\<rparr>,
               bringToFront (wid props) st))"

definition startResize ::
  "WindowRecord \<Rightarrow> int \<times> int \<Rightarrow> FrameState \<times> HostState \<Rightarrow> FrameState \<times> HostState" where
  "startResize props event s =
    (case s of
       (fs, st) \<Rightarrow>
         if maximized props then (fs, st)
         else (fs\<lparr>resizeStart := (fst event, snd event, width props, height props),
                  resizing := True\<rparr>,
               bringToFront (wid props) st))"

section \<open>The taskbar\<close>

text \<open>The click handler of the taskbar button rendered for the record \<open>win\<close>.\<close>

definition taskbarClick :: "WindowRecord \<Rightarrow> HostState \<Rightarrow> HostState" where
  "taskbarClick win st =
    (if minimized win then restoreWindow (wid win) st
     else if activeWindowId st = Some (wid win) then minimizeWindow (wid win) st
     else bringToFront (wid win) st)"

section \<open>Example states\<close>

text \<open>
  The states reached from the empty desktop by opening the chat window at time \<open>1\<close>,
  then the research window at time \<open>2\<close>. They serve as concrete inputs below.
\<close>

definition chatWin :: WindowRecord where
  "chatWin =
    \<lparr>wid = ''chat-1'', wtype = ''chat'', title = Some ''Chat v0.98'', width = Num 760,
     height = Num 520,
     x = 180, y = 80, minimized = False, maximized = False, zIndex = 1\<rparr>"

definition researchWin :: WindowRecord where
  "researchWin =
    \<lparr>wid = ''research-2'', wtype = ''research'', title = Some ''Research Lab v0.98'',
     width = Num 820, height = Num 560, x = 210, y = 110, minimized = False, maximized = False, zIndex = 2\<rparr>"

definition oneWindow :: HostState where
  "oneWindow = \<lparr>windows = [chatWin], activeWindowId = Some ''chat-1''\<rparr>"

definition twoWindows :: HostState where
  "twoWindows = \<lparr>windows = [chatWin, researchWin], activeWindowId = Some ''chat-1''\<rparr>"

text \<open>The chat window after \<open>maximize\<close>, and after \<open>move\<close> to \<open>(100, 100)\<close>.\<close>

definition maximizedChat :: HostState where
  "maximizedChat =
    \<lparr>windows = [chatWin\<lparr>maximized := True, zIndex := 2\<rparr>], activeWindowId = Some ''chat-1''\<rparr>"

definition draggedWin :: WindowRecord where
  "draggedWin = chatWin\<lparr>x := 100, y := 100\<rparr>"

definition draggedChat :: HostState where
  "draggedChat = \<lparr>windows = [draggedWin], activeWindowId = Some ''chat-1''\<rparr>"

section \<open>Basic facts\<close>

subsection \<open>The largest stacking index\<close>

lemma zOrZero_zIndex: "zOrZero w = zIndex w"
  by (simp add: zOrZero_def)

lemma maxZ_Nil: "maxZ [] = 0"
  by (simp add: maxZ_def)

lemma maxZ_Cons: "maxZ (w # ws) = max (zIndex w) (maxZ ws)"
  by (simp add: maxZ_def zOrZero_zIndex)

lemma maxZ_nonneg: "0 \<le> maxZ ws"
  by (induction ws) (simp_all add: maxZ_Nil maxZ_Cons)

lemma maxZ_upper: "w \<in> set ws \<Longrightarrow> zIndex w \<le> maxZ ws"
  by (induction ws) (auto simp: maxZ_Cons)

lemma maxZ_Max: "maxZ ws = Max (insert 0 (zIndex ` set ws))"
proof (induction ws)
  case Nil
  show ?case by (simp add: maxZ_Nil)
next
  case (Cons v vs)
  have "Max (insert 0 (zIndex ` set (v # vs))) = Max (insert (zIndex v) (insert 0 (zIndex ` set vs)))"
    by (simp add: insert_commute)
  also have "\<dots> = max (zIndex v) (Max (insert 0 (zIndex ` set vs)))"
    by (rule Max_insert) simp_all
  finally show ?case using Cons by (simp add: maxZ_Cons)
qed

subsection \<open>The effect\<close>

lemma windows_autoFocus: "windows (autoFocus st) = windows st"
  by (simp add: autoFocus_def)

lemma autoFocus_idem: "autoFocus (autoFocus st) = autoFocus st"
  by (auto simp: autoFocus_def list_ex_iff)

lemma autoFocus_present:
  "activeWindowId st = Some a \<Longrightarrow> a \<in> wid ` set (windows st) \<Longrightarrow> autoFocus st = st"
  by (auto simp: autoFocus_def list_ex_iff)

lemma autoFocus_None:
  "activeWindowId st = None \<Longrightarrow>
   autoFocus st =
     (if windows st = [] then st else st\<lparr>activeWindowId := Some (wid (last (windows st)))\<rparr>)"
  by (simp add: autoFocus_def list_ex_iff)

subsection \<open>Updating the records that satisfy a test\<close>

lemma map_upd_absent:
  "\<forall>w \<in> set ws. \<not> P w \<Longrightarrow> map (\<lambda>w. if P w then f w else w) ws = ws"
  by (induction ws) simp_all

lemma in_set_map_upd:
  "w \<in> set (map (\<lambda>v. if P v then f v else v) ws) \<Longrightarrow>
   (\<exists>u \<in> set ws. P u \<and> w = f u) \<or> (w \<in> set ws \<and> \<not> P w)"
  by (induction ws) (auto split: if_splits)

lemma wtype_map_upd:
  "(\<And>w. wtype (f w) = wtype w) \<Longrightarrow>
   map wtype (map (\<lambda>w. if P w then f w else w) ws) = map wtype ws"
  by (induction ws) simp_all

lemma wid_map_upd:
  "(\<And>w. wid (f w) = wid w) \<Longrightarrow>
   map wid (map (\<lambda>w. if P w then f w else w) ws) = map wid ws"
  by (induction ws) simp_all

lemma maxZ_map_upd:
  "(\<And>w. zIndex (f w) = zIndex w) \<Longrightarrow> maxZ (map (\<lambda>w. if P w then f w else w) ws) = maxZ ws"
  by (induction ws) (simp_all add: maxZ_Nil maxZ_Cons)

lemma map_upd_twice:
  "(\<And>w. P (g w) = P w) \<Longrightarrow>
   map (\<lambda>w. if P w then f w else w) (map (\<lambda>w. if P w then g w else w) ws)
     = map (\<lambda>w. if P w then f (g w) else w) ws"
  by (induction ws) simp_all

subsection \<open>Evaluating the example runs\<close>

lemmas eval_defs =
  run_def hostStep_def autoFocus_def openWindow_def closeWindow_def bringToFront_def
  minimizeWindow_def maximizeWindow_def restoreWindow_def moveWindow_def resizeWindow_def
  defaultsFor_def DEFAULT_WINDOWS_def objectPrototypeKeys_def decimal.simps digitChar_def maxZ_def zOrZero_def
  initialState_def chatWin_def researchWin_def oneWindow_def twoWindows_def Let_def

lemma run_open_chat: "run [Open ''chat'' 1] initialState = oneWindow"
  by (simp add: eval_defs)

lemma run_open_chat_research:
  "run [Open ''chat'' 1, Open ''research'' 2] initialState = twoWindows"
  by (simp add: eval_defs)

lemma run_maximize_chat:
  "run [Open ''chat'' 1, Maximize ''chat-1''] initialState = maximizedChat"
  by (simp add: eval_defs maximizedChat_def)

lemma run_move_chat:
  "run [Open ''chat'' 1, Move ''chat-1'' (100, 100)] initialState = draggedChat"
  by (simp add: eval_defs draggedChat_def draggedWin_def)

text \<open>A type that is an inherited property name, and what a resize gesture makes of it.\<close>

lemma open_inherited_name:
  "map (\<lambda>w. (title w, width w, height w)) (windows (run [Open ''constructor'' 1] initialState))
     = [(None, Undefined, Undefined)]"
  by (simp add: eval_defs)

lemma resize_undefined_size: "jsMax 420 (jsAdd Undefined d) = NaN"
  by simp

lemma windows_handleLogout: "windows (autoFocus (handleLogout st)) = []"
  by (simp add: handleLogout_def autoFocus_def)

lemma activeWindowId_handleLogout:
  "activeWindowId (autoFocus (handleLogout st)) = activeWindowId st"
  by (simp add: handleLogout_def autoFocus_def)

lemma autoFocus_empty: "windows st = [] \<Longrightarrow> autoFocus st = st"
  by (simp add: autoFocus_def)

subsection \<open>An id that no record carries\<close>

lemma absent_map:
  "i \<notin> wid ` set ws \<Longrightarrow> map (\<lambda>w. if wid w = i then f w else w) ws = ws"
  by (rule map_upd_absent) auto

lemma absent_filter:
  "i \<notin> wid ` set ws \<Longrightarrow> filter (\<lambda>w. wid w \<noteq> i) ws = ws"
  by (induction ws) auto

lemma absent_bringToFront:
  "i \<notin> wid ` set (windows st) \<Longrightarrow> bringToFront i st = st\<lparr>activeWindowId := Some i\<rparr>"
  by (simp add: bringToFront_def absent_map)

lemma absent_moveWindow: "i \<notin> wid ` set (windows st) \<Longrightarrow> moveWindow i pos st = st"
  by (simp add: moveWindow_def absent_map)

lemma absent_resizeWindow: "i \<notin> wid ` set (windows st) \<Longrightarrow> resizeWindow i sz st = st"
  by (simp add: resizeWindow_def absent_map)

lemma absent_closeWindow:
  "i \<notin> wid ` set (windows st) \<Longrightarrow>
   closeWindow i st =
     st\<lparr>activeWindowId := (if activeWindowId st = Some i then None else activeWindowId st)\<rparr>"
  by (simp add: closeWindow_def absent_filter)

lemma absent_minimizeWindow:
  "i \<notin> wid ` set (windows st) \<Longrightarrow>
   minimizeWindow i st =
     st\<lparr>activeWindowId := (if activeWindowId st = Some i then None else activeWindowId st)\<rparr>"
  by (simp add: minimizeWindow_def absent_map)

lemma absent_maximizeWindow:
  "i \<notin> wid ` set (windows st) \<Longrightarrow> maximizeWindow i st = st\<lparr>activeWindowId := Some i\<rparr>"
  by (simp add: maximizeWindow_def absent_map absent_bringToFront)

lemma absent_restoreWindow:
  "i \<notin> wid ` set (windows st) \<Longrightarrow> restoreWindow i st = st\<lparr>activeWindowId := Some i\<rparr>"
  by (simp add: restoreWindow_def absent_map absent_bringToFront)

lemma autoFocus_absent:
  "i \<notin> wid ` set (windows st) \<Longrightarrow>
   autoFocus (st\<lparr>activeWindowId := Some i\<rparr>) =
     st\<lparr>activeWindowId := (if windows st = [] then Some i else Some (wid (last (windows st))))\<rparr>"
  by (auto simp: autoFocus_def list_ex_iff)

subsection \<open>What move and resize store\<close>

lemma resizeWindow_sets:
  assumes "w \<in> set (windows (resizeWindow i sz st))" and "wid w = i"
  shows "width w = fst sz \<and> height w = snd sz"
proof -
  from assms(1)
  have "w \<in> set (map (\<lambda>v. if wid v = i then v\<lparr>width := fst sz, height := snd sz\<rparr> else v)
                 (windows st))"
    by (simp add: resizeWindow_def)
  from in_set_map_upd [OF this] show ?thesis
  proof
    assume "\<exists>u \<in> set (windows st). wid u = i \<and> w = u\<lparr>width := fst sz, height := snd sz\<rparr>"
    then obtain u where "w = u\<lparr>width := fst sz, height := snd sz\<rparr>" by blast
    then show ?thesis by simp
  next
    assume "w \<in> set (windows st) \<and> wid w \<noteq> i"
    with assms(2) show ?thesis by blast
  qed
qed

lemma moveWindow_sets:
  assumes "w \<in> set (windows (moveWindow i pos st))" and "wid w = i"
  shows "x w = fst pos \<and> y w = snd pos"
proof -
  from assms(1)
  have "w \<in> set (map (\<lambda>v. if wid v = i then v\<lparr>x := fst pos, y := snd pos\<rparr> else v)
                 (windows st))"
    by (simp add: moveWindow_def)
  from in_set_map_upd [OF this] show ?thesis
  proof
    assume "\<exists>u \<in> set (windows st). wid u = i \<and> w = u\<lparr>x := fst pos, y := snd pos\<rparr>"
    then obtain u where "w = u\<lparr>x := fst pos, y := snd pos\<rparr>" by blast
    then show ?thesis by simp
  next
    assume "w \<in> set (windows st) \<and> wid w \<noteq> i"
    with assms(2) show ?thesis by blast
  qed
qed

subsection \<open>Operations that keep types and ids\<close>

lemma wtype_bringToFront: "map wtype (windows (bringToFront i st)) = map wtype (windows st)"
  by (simp add: bringToFront_def wtype_map_upd)

lemma wid_bringToFront: "map wid (windows (bringToFront i st)) = map wid (windows st)"
  by (simp add: bringToFront_def wid_map_upd)

lemma wtype_minimizeWindow: "map wtype (windows (minimizeWindow i st)) = map wtype (windows st)"
  by (simp add: minimizeWindow_def wtype_map_upd)

lemma wid_minimizeWindow: "map wid (windows (minimizeWindow i st)) = map wid (windows st)"
  by (simp add: minimizeWindow_def wid_map_upd)

lemma wtype_maximizeWindow: "map wtype (windows (maximizeWindow i st)) = map wtype (windows st)"
  by (simp add: maximizeWindow_def wtype_bringToFront wtype_map_upd)

lemma wid_maximizeWindow: "map wid (windows (maximizeWindow i st)) = map wid (windows st)"
  by (simp add: maximizeWindow_def wid_bringToFront wid_map_upd)

lemma wtype_restoreWindow: "map wtype (windows (restoreWindow i st)) = map wtype (windows st)"
  by (simp add: restoreWindow_def wtype_bringToFront wtype_map_upd)

lemma wid_restoreWindow: "map wid (windows (restoreWindow i st)) = map wid (windows st)"
  by (simp add: restoreWindow_def wid_bringToFront wid_map_upd)

lemma wtype_moveWindow: "map wtype (windows (moveWindow i pos st)) = map wtype (windows st)"
  by (simp add: moveWindow_def wtype_map_upd)

lemma wid_moveWindow: "map wid (windows (moveWindow i pos st)) = map wid (windows st)"
  by (simp add: moveWindow_def wid_map_upd)

lemma wtype_resizeWindow: "map wtype (windows (resizeWindow i sz st)) = map wtype (windows st)"
  by (simp add: resizeWindow_def wtype_map_upd)

lemma wid_resizeWindow: "map wid (windows (resizeWindow i sz st)) = map wid (windows st)"
  by (simp add: resizeWindow_def wid_map_upd)

subsection \<open>The two branches of openWindow\<close>

lemma openWindow_existing:
  assumes "\<exists>w \<in> set (windows st). wtype w = ty"
  shows "openWindow ty now st =
    st\<lparr>windows :=
         map (\<lambda>win. if wtype win = ty
                     then win\<lparr>minimized := False, zIndex := maxZ (windows st) + 1\<rparr>
                     else win) (windows st)\<rparr>"
proof -
  from assms have "find (\<lambda>win. wtype win = ty) (windows st) \<noteq> None"
    by (auto simp: find_None_iff)
  then obtain e where "find (\<lambda>win. wtype win = ty) (windows st) = Some e" by blast
  then show ?thesis by (simp add: openWindow_def Let_def)
qed

lemma openWindow_new:
  assumes "\<not> (\<exists>w \<in> set (windows st). wtype w = ty)"
  shows "openWindow ty now st =
    st\<lparr>windows :=
         windows st @
         [\<lparr>wid = ty @ ''-'' @ decimal now, wtype = ty,
           title = fst (defaultsFor ty),
           width = fst (snd (defaultsFor ty)),
           height = snd (snd (defaultsFor ty)),
           x = 180 + 30 * int (length (windows st)),
           y = 80 + 30 * int (length (windows st)),
           minimized = False, maximized = False,
           zIndex = maxZ (windows st) + 1\<rparr>]\<rparr>"
proof -
  from assms have "find (\<lambda>win. wtype win = ty) (windows st) = None"
    by (auto simp: find_None_iff)
  then show ?thesis by (simp add: openWindow_def Let_def)
qed

lemma wtype_openWindow:
  "map wtype (windows (openWindow ty now st)) =
     (if \<exists>w \<in> set (windows st). wtype w = ty then map wtype (windows st)
      else map wtype (windows st) @ [ty])"
proof (cases "\<exists>w \<in> set (windows st). wtype w = ty")
  case True
  then show ?thesis by (simp add: openWindow_existing [OF True] wtype_map_upd)
next
  case False
  then show ?thesis by (simp add: openWindow_new [OF False])
qed

lemma wid_openWindow_subset:
  "wid ` set (windows st) \<subseteq> wid ` set (windows (openWindow ty now st))"
proof (cases "\<exists>w \<in> set (windows st). wtype w = ty")
  case True
  have "map wid (windows (openWindow ty now st)) = map wid (windows st)"
    by (simp add: openWindow_existing [OF True] wid_map_upd)
  then have "set (map wid (windows (openWindow ty now st))) = set (map wid (windows st))"
    by simp
  then show ?thesis by simp
next
  case False
  obtain nw where "windows (openWindow ty now st) = windows st @ [nw]"
    by (simp add: openWindow_new [OF False])
  then have "set (windows (openWindow ty now st)) = insert nw (set (windows st))"
    by simp
  then show ?thesis by blast
qed

subsection \<open>Types stay distinct\<close>

lemma distinct_types_applyOp:
  assumes "distinct (map wtype (windows st))"
  shows "distinct (map wtype (windows (applyOp op st)))"
proof (cases op)
  case (Open ty now)
  show ?thesis
  proof (cases "\<exists>w \<in> set (windows st). wtype w = ty")
    case True
    then have "map wtype (windows (openWindow ty now st)) = map wtype (windows st)"
      by (simp add: wtype_openWindow)
    with assms show ?thesis by (simp add: Open)
  next
    case False
    then have eq: "map wtype (windows (openWindow ty now st)) = map wtype (windows st) @ [ty]"
      by (simp add: wtype_openWindow)
    have "ty \<notin> set (map wtype (windows st))" using False by auto
    with assms show ?thesis by (simp add: Open eq)
  qed
next
  case (Close i)
  show ?thesis
    using assms unfolding Close applyOp.simps
    by (simp add: closeWindow_def distinct_map_filter)
qed (use assms in \<open>simp_all add: wtype_bringToFront wtype_minimizeWindow wtype_maximizeWindow
      wtype_restoreWindow wtype_moveWindow wtype_resizeWindow\<close>)

lemma distinct_types_hostStep:
  "distinct (map wtype (windows st)) \<Longrightarrow> distinct (map wtype (windows (hostStep op st)))"
  by (simp add: hostStep_def windows_autoFocus distinct_types_applyOp)

lemma distinct_types_run:
  "distinct (map wtype (windows st)) \<Longrightarrow> distinct (map wtype (windows (run ops st)))"
proof (induction ops arbitrary: st)
  case Nil
  then show ?case by (simp add: run_def)
next
  case (Cons op ops)
  have "run (op # ops) st = run ops (hostStep op st)" by (simp add: run_def)
  then show ?case using Cons.IH [OF distinct_types_hostStep [OF Cons.prems]] by simp
qed

subsection \<open>Only close removes an id\<close>

lemma wid_applyOp_subset:
  assumes "\<forall>i. op \<noteq> Close i"
  shows "wid ` set (windows st) \<subseteq> wid ` set (windows (applyOp op st))"
proof (cases op)
  case (Open ty now)
  show ?thesis unfolding Open applyOp.simps by (rule wid_openWindow_subset)
next
  case (Close i)
  with assms show ?thesis by simp
next
  case (Focus i)
  have "set (map wid (windows (applyOp op st))) = set (map wid (windows st))"
    by (simp only: Focus applyOp.simps wid_bringToFront)
  then show ?thesis by simp
next
  case (Minimize i)
  have "set (map wid (windows (applyOp op st))) = set (map wid (windows st))"
    by (simp only: Minimize applyOp.simps wid_minimizeWindow)
  then show ?thesis by simp
next
  case (Maximize i)
  have "set (map wid (windows (applyOp op st))) = set (map wid (windows st))"
    by (simp only: Maximize applyOp.simps wid_maximizeWindow)
  then show ?thesis by simp
next
  case (Restore i)
  have "set (map wid (windows (applyOp op st))) = set (map wid (windows st))"
    by (simp only: Restore applyOp.simps wid_restoreWindow)
  then show ?thesis by simp
next
  case (Move i pos)
  have "set (map wid (windows (applyOp op st))) = set (map wid (windows st))"
    by (simp only: Move applyOp.simps wid_moveWindow)
  then show ?thesis by simp
next
  case (Resize i sz)
  have "set (map wid (windows (applyOp op st))) = set (map wid (windows st))"
    by (simp only: Resize applyOp.simps wid_resizeWindow)
  then show ?thesis by simp
qed

lemma closeWindow_keeps_others:
  "a \<in> wid ` set (windows st) \<Longrightarrow> a \<noteq> i \<Longrightarrow> a \<in> wid ` set (windows (closeWindow i st))"
  by (auto simp: closeWindow_def)

lemma hostStep_close_focused:
  assumes "activeWindowId st = Some a"
  shows "activeWindowId (hostStep (Close a) st) =
     (if windows (hostStep (Close a) st) = [] then None
      else Some (wid (last (windows (hostStep (Close a) st)))))"
proof -
  have n: "activeWindowId (closeWindow a st) = None"
    using assms by (simp add: closeWindow_def)
  show ?thesis
    by (simp add: hostStep_def autoFocus_None [OF n] n)
qed

subsection \<open>Restore\<close>

lemma windows_restoreWindow:
  "windows (restoreWindow i st) =
     map (\<lambda>w. if wid w = i then w\<lparr>minimized := False, zIndex := maxZ (windows st) + 1\<rparr> else w)
       (windows st)"
proof -
  let ?g = "\<lambda>w. w\<lparr>minimized := False\<rparr>"
  let ?ws1 = "map (\<lambda>w. if wid w = i then ?g w else w) (windows st)"
  have mz: "maxZ ?ws1 = maxZ (windows st)"
    by (rule maxZ_map_upd) simp
  have "windows (restoreWindow i st) =
          map (\<lambda>w. if wid w = i then w\<lparr>zIndex := maxZ ?ws1 + 1\<rparr> else w) ?ws1"
    by (simp add: restoreWindow_def bringToFront_def)
  also have "\<dots> = map (\<lambda>w. if wid w = i then (?g w)\<lparr>zIndex := maxZ ?ws1 + 1\<rparr> else w) (windows st)"
    by (rule map_upd_twice [where P = "\<lambda>w. wid w = i" and g = ?g
          and f = "\<lambda>w. w\<lparr>zIndex := maxZ ?ws1 + 1\<rparr>"]) simp
  finally show ?thesis by (simp only: mz)
qed

lemma activeWindowId_restoreWindow: "activeWindowId (restoreWindow i st) = Some i"
  by (simp add: restoreWindow_def bringToFront_def)

lemma present_after:
  assumes "win \<in> set (windows st)" and "map wid (windows st') = map wid (windows st)"
  shows "wid win \<in> wid ` set (windows st')"
proof -
  from assms(1) have "wid win \<in> set (map wid (windows st))" by simp
  with assms(2) have "wid win \<in> set (map wid (windows st'))" by simp
  then show ?thesis by simp
qed

subsection \<open>The drag gesture\<close>

lemma startDrag_begins:
  assumes "\<not> minimized props" and "\<not> maximized props"
  shows "startDrag props (px, py) (rleft, rtop) (fs, st) =
           (fs\<lparr>dragOffset := (px - rleft, py - rtop), dragging := True\<rparr>,
            bringToFront (wid props) st)"
  using assms by (simp add: startDrag_def)

lemma handleMove_dragging:
  assumes "dragging fs" and "\<not> resizing fs" and "\<not> maximized props"
  shows "handleMove fs props event st =
           moveWindow (wid props)
             (fst event - fst (dragOffset fs), snd event - snd (dragOffset fs)) st"
  using assms by (simp add: handleMove_def)

section \<open>Focus and the minimized flag\<close>

text \<open>
  C1. The specification has the focused id never name a minimized record. Open the chat
  window on the empty desktop and minimize it: \<open>minimizeWindow\<close> clears the focus, and the
  auto-focus effect that follows sets it to the last record of the list, which is the
  window just minimized. The state after the two operations has the chat window
  minimized and focused.
\<close>

theorem minimized_window_refocused:
  "activeWindowId (minimizeWindow ''chat-1'' (run [Open ''chat'' 1] initialState)) = None
   \<and> activeWindowId (run [Open ''chat'' 1, Minimize ''chat-1''] initialState) = Some ''chat-1''
   \<and> map (\<lambda>w. (wid w, minimized w))
         (windows (run [Open ''chat'' 1, Minimize ''chat-1''] initialState))
       = [(''chat-1'', True)]"
  by (simp add: eval_defs)

section \<open>Moving and resizing a maximized window\<close>

text \<open>
  C2 (as stated). The specification has the host operations \<open>move\<close> and \<open>resize\<close> leave
  the position and size of a maximized record unchanged. \<open>moveWindow\<close> and
  \<open>resizeWindow\<close> do not read the \<open>maximized\<close> flag: after opening the chat window
  and maximizing it, \<open>move\<close> to \<open>(0, 0)\<close> changes its position from \<open>(180, 80)\<close> to
  \<open>(0, 0)\<close>, and \<open>resize\<close> to \<open>(900, 700)\<close> changes its size from \<open>(760, 520)\<close>.
\<close>

theorem move_resize_maximized_counterexample:
  "map maximized (windows (run [Open ''chat'' 1, Maximize ''chat-1''] initialState)) = [True]
   \<and> map (\<lambda>w. (x w, y w)) (windows (run [Open ''chat'' 1, Maximize ''chat-1''] initialState))
       = [(180, 80)]
   \<and> map (\<lambda>w. (x w, y w))
         (windows (hostStep (Move ''chat-1'' (0, 0))
                    (run [Open ''chat'' 1, Maximize ''chat-1''] initialState)))
       = [(0, 0)]
   \<and> map (\<lambda>w. (width w, height w))
         (windows (run [Open ''chat'' 1, Maximize ''chat-1''] initialState))
       = [(Num 760, Num 520)]
   \<and> map (\<lambda>w. (width w, height w))
         (windows (hostStep (Resize ''chat-1'' (900, 700))
                    (run [Open ''chat'' 1, Maximize ''chat-1''] initialState)))
       = [(Num 900, Num 700)]"
  unfolding run_maximize_chat
  by (simp add: maximizedChat_def chatWin_def hostStep_def autoFocus_def moveWindow_def
      resizeWindow_def)

text \<open>
  C2 (amended). The rule is enforced by the frame, not by the host: for a record whose
  \<open>maximized\<close> flag is true, the frame rendered from it starts no drag and no resize
  gesture, and its pointer-move handler calls neither \<open>move\<close> nor \<open>resize\<close>, whatever
  its own state and whatever the pointer position. The host state, and with it the
  record's position and size, is unchanged. The host operations themselves do not read
  the flag: after \<open>move\<close> every record with the id has the given position, after
  \<open>resize\<close> the given size.
\<close>

theorem maximized_guard_in_frame:
  "(maximized props \<longrightarrow>
      handleMove fs props event st = st
    \<and> startDrag props event rect (fs, st) = (fs, st)
    \<and> startResize props event (fs, st) = (fs, st))
   \<and> (\<forall>w \<in> set (windows (moveWindow i pos st)).
         wid w = i \<longrightarrow> x w = fst pos \<and> y w = snd pos)
   \<and> (\<forall>w \<in> set (windows (resizeWindow i sz st)).
         wid w = i \<longrightarrow> width w = fst sz \<and> height w = snd sz)"
proof -
  have a: "maximized props \<longrightarrow>
      handleMove fs props event st = st
    \<and> startDrag props event rect (fs, st) = (fs, st)
    \<and> startResize props event (fs, st) = (fs, st)"
    by (simp add: handleMove_def startDrag_def startResize_def)
  have b: "\<forall>w \<in> set (windows (moveWindow i pos st)).
         wid w = i \<longrightarrow> x w = fst pos \<and> y w = snd pos"
    using moveWindow_sets by blast
  have c: "\<forall>w \<in> set (windows (resizeWindow i sz st)).
         wid w = i \<longrightarrow> width w = fst sz \<and> height w = snd sz"
    using resizeWindow_sets by blast
  show ?thesis by (rule conjI [OF a conjI [OF b c]])
qed

theorem maximized_guard_in_frame_witness:
  "maximized (chatWin\<lparr>maximized := True, zIndex := 2\<rparr>)
   \<and> handleMove (initialFrame\<lparr>dragging := True, resizing := True\<rparr>)
        (chatWin\<lparr>maximized := True, zIndex := 2\<rparr>) (0, 0) maximizedChat = maximizedChat
   \<and> startDrag (chatWin\<lparr>maximized := True, zIndex := 2\<rparr>) (200, 90) (180, 80)
        (initialFrame, maximizedChat) = (initialFrame, maximizedChat)
   \<and> startResize (chatWin\<lparr>maximized := True, zIndex := 2\<rparr>) (940, 600)
        (initialFrame, maximizedChat) = (initialFrame, maximizedChat)"
proof -
  let ?w = "chatWin\<lparr>maximized := True, zIndex := 2\<rparr>"
  have h: "maximized ?w" by simp
  note t = maximized_guard_in_frame
    [of ?w "initialFrame\<lparr>dragging := True, resizing := True\<rparr>" "(0, 0)" maximizedChat]
  have a: "handleMove (initialFrame\<lparr>dragging := True, resizing := True\<rparr>) ?w (0, 0)
             maximizedChat = maximizedChat"
    using t h by blast
  note u = maximized_guard_in_frame [of ?w initialFrame "(200, 90)" maximizedChat "(180, 80)"]
  have b: "startDrag ?w (200, 90) (180, 80) (initialFrame, maximizedChat)
             = (initialFrame, maximizedChat)"
    using u h by blast
  note v = maximized_guard_in_frame [of ?w initialFrame "(940, 600)" maximizedChat]
  have c: "startResize ?w (940, 600) (initialFrame, maximizedChat)
             = (initialFrame, maximizedChat)"
    using v h by blast
  show ?thesis by (rule conjI [OF h conjI [OF a conjI [OF b c]]])
qed

section \<open>The minimum size of a resized window\<close>

text \<open>
  C3 (as stated). The specification has every resize, whatever the requested size, leave
  the record at least \<open>420\<close> wide and \<open>280\<close> high. The host operation
  \<open>resizeWindow\<close> has no floor: after opening the chat window, \<open>resize\<close> to \<open>(0, 0)\<close>
  changes its size from \<open>(760, 520)\<close> to \<open>(0, 0)\<close>.
\<close>

theorem resize_below_floor_counterexample:
  "map (\<lambda>w. (width w, height w)) (windows (run [Open ''chat'' 1] initialState))
     = [(Num 760, Num 520)]
   \<and> map (\<lambda>w. (width w, height w))
         (windows (run [Open ''chat'' 1, Resize ''chat-1'' (0, 0)] initialState))
     = [(Num 0, Num 0)]
   \<and> \<not> jsAtLeast (Num 0) 420
   \<and> \<not> jsAtLeast (Num 0) 280"
  by (simp add: eval_defs)

text \<open>
  C3 (amended). The floor belongs to the resize gesture of the frame. Pointer-down on
  the resize handle of a frame that is not maximized puts the frame in resizing mode and
  stores the pointer position and the record's width and height. For a frame in
  resizing mode, not maximized, whose stored starting size is a pair of numbers, every
  pointer-move, whatever the displacement, stores in the record with the frame's id the
  width \<open>max(420, startW + dx)\<close> and the height \<open>max(280, startH + dy)\<close>: the
  width is at least \<open>420\<close> and the height at least \<open>280\<close>. The host operation itself
  stores the size it is given.
\<close>

theorem resize_gesture_floor:
  "(\<not> maximized props \<longrightarrow>
      resizing (fst (startResize props (px, py) (fs0, st)))
    \<and> resizeStart (fst (startResize props (px, py) (fs0, st)))
        = (px, py, width props, height props))
   \<and> (resizing fs \<and> \<not> maximized props \<and> resizeStart fs = (sx, sy, Num sw, Num sh) \<longrightarrow>
        (\<forall>w \<in> set (windows (handleMove fs props event st)).
           wid w = wid props \<longrightarrow>
             width w = Num (max 420 (sw + (fst event - sx)))
           \<and> height w = Num (max 280 (sh + (snd event - sy)))
           \<and> jsAtLeast (width w) 420
           \<and> jsAtLeast (height w) 280))
   \<and> (\<forall>w \<in> set (windows (resizeWindow i sz st)).
         wid w = i \<longrightarrow> width w = fst sz \<and> height w = snd sz)"
proof -
  have a: "\<not> maximized props \<longrightarrow>
      resizing (fst (startResize props (px, py) (fs0, st)))
    \<and> resizeStart (fst (startResize props (px, py) (fs0, st)))
        = (px, py, width props, height props)"
    by (simp add: startResize_def)
  have b: "resizing fs \<and> \<not> maximized props \<and> resizeStart fs = (sx, sy, Num sw, Num sh) \<longrightarrow>
        (\<forall>w \<in> set (windows (handleMove fs props event st)).
           wid w = wid props \<longrightarrow>
             width w = Num (max 420 (sw + (fst event - sx)))
           \<and> height w = Num (max 280 (sh + (snd event - sy)))
           \<and> jsAtLeast (width w) 420
           \<and> jsAtLeast (height w) 280)"
  proof (intro impI ballI)
    fix w
    assume h: "resizing fs \<and> \<not> maximized props \<and> resizeStart fs = (sx, sy, Num sw, Num sh)"
      and w: "w \<in> set (windows (handleMove fs props event st))"
      and i: "wid w = wid props"
    define st1 where "st1 =
      (if dragging fs \<and> \<not> maximized props
       then moveWindow (wid props)
              (fst event - fst (dragOffset fs), snd event - snd (dragOffset fs)) st
       else st)"
    have hm: "handleMove fs props event st =
        resizeWindow (wid props)
          (Num (max 420 (sw + (fst event - sx))), Num (max 280 (sh + (snd event - sy)))) st1"
      using h by (simp add: handleMove_def st1_def Let_def)
    from w have "w \<in> set (windows (resizeWindow (wid props)
          (Num (max 420 (sw + (fst event - sx))), Num (max 280 (sh + (snd event - sy)))) st1))"
      by (simp only: hm)
    from resizeWindow_sets [OF this i]
    have e: "width w = Num (max 420 (sw + (fst event - sx)))
           \<and> height w = Num (max 280 (sh + (snd event - sy)))"
      by simp
    then have f: "jsAtLeast (width w) 420 \<and> jsAtLeast (height w) 280"
      by simp
    from e f show "width w = Num (max 420 (sw + (fst event - sx)))
           \<and> height w = Num (max 280 (sh + (snd event - sy)))
           \<and> jsAtLeast (width w) 420
           \<and> jsAtLeast (height w) 280"
      by blast
  qed
  have c: "\<forall>w \<in> set (windows (resizeWindow i sz st)).
         wid w = i \<longrightarrow> width w = fst sz \<and> height w = snd sz"
    using resizeWindow_sets by blast
  show ?thesis by (rule conjI [OF a conjI [OF b c]])
qed

theorem resize_gesture_floor_witness:
  "\<not> maximized chatWin
   \<and> resizeStart (fst (startResize chatWin (940, 600) (initialFrame, oneWindow)))
       = (940, 600, Num 760, Num 520)
   \<and> resizing (initialFrame\<lparr>resizing := True, resizeStart := (940, 600, Num 760, Num 520)\<rparr>)
   \<and> windows (handleMove
         (initialFrame\<lparr>resizing := True, resizeStart := (940, 600, Num 760, Num 520)\<rparr>)
         chatWin (-5000, -5000) oneWindow)
       = [chatWin\<lparr>width := Num 420, height := Num 280\<rparr>]
   \<and> jsAtLeast (width (chatWin\<lparr>width := Num 420, height := Num 280\<rparr>)) 420
   \<and> jsAtLeast (height (chatWin\<lparr>width := Num 420, height := Num 280\<rparr>)) 280"
proof -
  let ?fs = "initialFrame\<lparr>resizing := True, resizeStart := (940, 600, Num 760, Num 520)\<rparr>"
  let ?w = "chatWin\<lparr>width := Num 420, height := Num 280\<rparr>"
  have h1: "resizing ?fs" by simp
  have h2: "\<not> maximized chatWin" by (simp add: chatWin_def)
  have h3: "resizeStart ?fs = (940, 600, Num 760, Num 520)" by simp
  note t = resize_gesture_floor
    [of chatWin 940 600 initialFrame oneWindow ?fs 940 600 760 520 "(-5000, -5000)"]
  have s0: "resizeStart (fst (startResize chatWin (940, 600) (initialFrame, oneWindow)))
       = (940, 600, width chatWin, height chatWin)"
    using t h2 by blast
  have s: "resizeStart (fst (startResize chatWin (940, 600) (initialFrame, oneWindow)))
       = (940, 600, Num 760, Num 520)"
    by (simp only: s0) (simp add: chatWin_def)
  have hm: "handleMove ?fs chatWin (-5000, -5000) oneWindow
              = resizeWindow ''chat-1'' (Num 420, Num 280) oneWindow"
    by (simp add: handleMove_def initialFrame_def chatWin_def)
  have ws: "windows (handleMove ?fs chatWin (-5000, -5000) oneWindow) = [?w]"
    unfolding hm by (simp add: resizeWindow_def oneWindow_def chatWin_def)
  have m: "?w \<in> set (windows (handleMove ?fs chatWin (-5000, -5000) oneWindow))"
    by (simp only: ws) simp
  have i: "wid ?w = wid chatWin" by simp
  have f: "jsAtLeast (width ?w) 420 \<and> jsAtLeast (height ?w) 280"
    using t h1 h2 h3 m i by blast
  show ?thesis
    by (rule conjI [OF h2 conjI [OF s conjI [OF h1 conjI [OF ws f]]]])
qed

section \<open>Operations on an id that is not in the list\<close>

text \<open>
  C4 (as stated). The specification has every host operation taking an id leave both the
  window list and the focused id unchanged when the id is absent, and \<open>focus\<close> be
  a complete no-op then. \<open>bringToFront\<close> calls \<open>setActiveWindowId(id)\<close> whatever the
  list holds: on the empty desktop the focused id goes from \<open>null\<close> to the absent id, and
  with the chat and research windows open and chat focused, the effect then moves the
  focus to the research window.
\<close>

theorem focus_absent_id_counterexample:
  "''ghost'' \<notin> wid ` set (windows initialState)
   \<and> activeWindowId initialState = None
   \<and> activeWindowId (hostStep (Focus ''ghost'') initialState) = Some ''ghost''
   \<and> ''ghost'' \<notin> wid ` set (windows twoWindows)
   \<and> activeWindowId twoWindows = Some ''chat-1''
   \<and> activeWindowId (hostStep (Focus ''ghost'') twoWindows) = Some ''research-2''"
  by (simp add: eval_defs)

text \<open>
  C4 (amended). For an id that no record of the list carries, every host operation
  taking an id leaves the window list unchanged, and none of them can fail (each is a
  total function of the state). \<open>move\<close> and \<open>resize\<close> leave the whole state unchanged.
  \<open>close\<close> and \<open>minimize\<close> leave the focused id unchanged unless it is that absent id,
  which they clear. \<open>focus\<close>, \<open>maximize\<close> and \<open>restore\<close> set the focused id to the
  absent id; the auto-focus effect then replaces it by the id of the last record when
  the list is not empty.
\<close>

theorem absent_id_operations:
  assumes "i \<notin> wid ` set (windows st)"
  shows "windows (bringToFront i st) = windows st
       \<and> windows (closeWindow i st) = windows st
       \<and> windows (minimizeWindow i st) = windows st
       \<and> windows (maximizeWindow i st) = windows st
       \<and> windows (restoreWindow i st) = windows st
       \<and> moveWindow i pos st = st
       \<and> resizeWindow i sz st = st
       \<and> activeWindowId (closeWindow i st)
            = (if activeWindowId st = Some i then None else activeWindowId st)
       \<and> activeWindowId (minimizeWindow i st)
            = (if activeWindowId st = Some i then None else activeWindowId st)
       \<and> activeWindowId (bringToFront i st) = Some i
       \<and> activeWindowId (maximizeWindow i st) = Some i
       \<and> activeWindowId (restoreWindow i st) = Some i
       \<and> activeWindowId (hostStep (Focus i) st)
            = (if windows st = [] then Some i else Some (wid (last (windows st))))
       \<and> activeWindowId (hostStep (Maximize i) st)
            = (if windows st = [] then Some i else Some (wid (last (windows st))))
       \<and> activeWindowId (hostStep (Restore i) st)
            = (if windows st = [] then Some i else Some (wid (last (windows st))))"
  using assms
  by (simp add: absent_bringToFront absent_closeWindow absent_minimizeWindow
      absent_maximizeWindow absent_restoreWindow absent_moveWindow absent_resizeWindow
      hostStep_def autoFocus_absent)

theorem absent_id_operations_witness:
  "''ghost'' \<notin> wid ` set (windows twoWindows)
   \<and> windows (bringToFront ''ghost'' twoWindows) = windows twoWindows
   \<and> moveWindow ''ghost'' (0, 0) twoWindows = twoWindows
   \<and> activeWindowId (closeWindow ''ghost'' twoWindows) = Some ''chat-1''
   \<and> activeWindowId (hostStep (Focus ''ghost'') twoWindows) = Some ''research-2''"
proof -
  have h: "''ghost'' \<notin> wid ` set (windows twoWindows)"
    by (simp add: twoWindows_def chatWin_def researchWin_def)
  note t = absent_id_operations [OF h, of "(0, 0)" "(Num 0, Num 0)"]
  have a: "activeWindowId twoWindows = Some ''chat-1''"
    by (simp add: twoWindows_def)
  have l: "windows twoWindows \<noteq> [] \<and> wid (last (windows twoWindows)) = ''research-2''"
    by (simp add: twoWindows_def researchWin_def)
  show ?thesis using h t a l by simp
qed

section \<open>Opening a window of a new type\<close>

text \<open>
  C5. The specification has a newly created record become the focused window. Open the chat
  window, then the research window: the research record is appended with the defaults of
  its type, the cascading position \<open>(180 + 30, 80 + 30)\<close> and the top stacking index,
  but the focused id is still the chat window's, because \<open>openWindow\<close> does not set it
  and the effect only acts when the focused id is not in the list.
\<close>

theorem second_window_not_focused:
  "windows (run [Open ''chat'' 1, Open ''research'' 2] initialState) = [chatWin, researchWin]
   \<and> activeWindowId (run [Open ''chat'' 1, Open ''research'' 2] initialState)
       = Some (wid chatWin)
   \<and> wid researchWin \<noteq> wid chatWin"
  unfolding run_open_chat_research by (simp add: twoWindows_def chatWin_def researchWin_def)

section \<open>One window per type\<close>

text \<open>
  C6. Whatever sequence of host operations is run from the empty desktop (sequences of
  \<open>open\<close> calls among them), no two records of the list have the same type. When a
  record of the requested type exists, \<open>openWindow\<close> keeps the length of the list and
  the focused id, and replaces each record of that type by itself with \<open>minimized\<close>
  cleared and \<open>zIndex\<close> set to one more than the largest stacking index (or than \<open>0\<close>,
  if that is larger); every other record, and every other field, is unchanged.
\<close>

theorem one_window_per_type:
  "distinct (map wtype (windows (run ops initialState)))
   \<and> ((\<exists>w \<in> set (windows st). wtype w = ty) \<longrightarrow>
        windows (openWindow ty now st) =
          map (\<lambda>w. if wtype w = ty
                    then w\<lparr>minimized := False,
                           zIndex := Max (insert 0 (zIndex ` set (windows st))) + 1\<rparr>
                    else w) (windows st)
        \<and> length (windows (openWindow ty now st)) = length (windows st)
        \<and> activeWindowId (openWindow ty now st) = activeWindowId st)"
proof (intro conjI impI)
  show "distinct (map wtype (windows (run ops initialState)))"
    by (rule distinct_types_run) (simp add: initialState_def)
next
  assume e: "\<exists>w \<in> set (windows st). wtype w = ty"
  show "windows (openWindow ty now st) =
          map (\<lambda>w. if wtype w = ty
                    then w\<lparr>minimized := False,
                           zIndex := Max (insert 0 (zIndex ` set (windows st))) + 1\<rparr>
                    else w) (windows st)"
    by (simp add: openWindow_existing [OF e] maxZ_Max)
  show "length (windows (openWindow ty now st)) = length (windows st)"
    by (simp add: openWindow_existing [OF e])
  show "activeWindowId (openWindow ty now st) = activeWindowId st"
    by (simp add: openWindow_existing [OF e])
qed

theorem one_window_per_type_witness:
  "chatWin \<in> set (windows twoWindows) \<and> wtype chatWin = ''chat''
   \<and> distinct (map wtype
         (windows (run [Open ''chat'' 1, Open ''research'' 2, Open ''chat'' 3] initialState)))
   \<and> windows (openWindow ''chat'' 3 twoWindows)
       = [chatWin\<lparr>minimized := False, zIndex := 3\<rparr>, researchWin]"
proof -
  note t = one_window_per_type
    [of "[Open ''chat'' 1, Open ''research'' 2, Open ''chat'' 3]" twoWindows "''chat''" 3]
  have m: "chatWin \<in> set (windows twoWindows)" by (simp add: twoWindows_def)
  have ty: "wtype chatWin = ''chat''" by (simp add: chatWin_def)
  have e: "\<exists>w \<in> set (windows twoWindows). wtype w = ''chat''" using m ty by blast
  have d: "distinct (map wtype
         (windows (run [Open ''chat'' 1, Open ''research'' 2, Open ''chat'' 3] initialState)))"
    using t by blast
  have "windows (openWindow ''chat'' 3 twoWindows) =
          map (\<lambda>w. if wtype w = ''chat''
                    then w\<lparr>minimized := False,
                           zIndex := Max (insert 0 (zIndex ` set (windows twoWindows))) + 1\<rparr>
                    else w) (windows twoWindows)"
    using t e by blast
  also have "\<dots> = [chatWin\<lparr>minimized := False, zIndex := 3\<rparr>, researchWin]"
    by (simp add: twoWindows_def chatWin_def researchWin_def)
  finally have w: "windows (openWindow ''chat'' 3 twoWindows)
       = [chatWin\<lparr>minimized := False, zIndex := 3\<rparr>, researchWin]" .
  show ?thesis by (rule conjI [OF m conjI [OF ty conjI [OF d w]]])
qed

section \<open>Focus raises a window to the top\<close>

text \<open>
  C7. After \<open>bringToFront i\<close> on a state that holds a record with id \<open>i\<close>, every record
  with that id carries the largest stacking index of the list; the list keeps its length
  and every record with another id is the record it was, stacking index included.
\<close>

theorem bringToFront_maximal:
  assumes "i \<in> wid ` set (windows st)"
  shows "(\<forall>w \<in> set (windows (bringToFront i st)).
            wid w = i \<longrightarrow> zIndex w = Max (zIndex ` set (windows (bringToFront i st))))
       \<and> length (windows (bringToFront i st)) = length (windows st)
       \<and> (\<forall>k < length (windows st).
            wid (windows st ! k) \<noteq> i \<longrightarrow> windows (bringToFront i st) ! k = windows st ! k)"
proof -
  let ?ws = "windows st"
  let ?f = "\<lambda>win. if wid win = i then win\<lparr>zIndex := maxZ ?ws + 1\<rparr> else win"
  have ws': "windows (bringToFront i st) = map ?f ?ws"
    by (simp add: bringToFront_def)
  from assms obtain v where v: "v \<in> set ?ws" "wid v = i" by auto
  have top: "maxZ ?ws + 1 \<in> zIndex ` set (map ?f ?ws)"
  proof -
    have "?f v \<in> set (map ?f ?ws)" using v(1) by simp
    moreover have "zIndex (?f v) = maxZ ?ws + 1" using v(2) by simp
    ultimately show ?thesis by (intro image_eqI [where x = "?f v"]) simp_all
  qed
  have bound: "\<forall>z \<in> zIndex ` set (map ?f ?ws). z \<le> maxZ ?ws + 1"
  proof
    fix z assume "z \<in> zIndex ` set (map ?f ?ws)"
    then obtain u where u: "u \<in> set ?ws" "z = zIndex (?f u)" by auto
    show "z \<le> maxZ ?ws + 1"
      using maxZ_upper [OF u(1)] u(2) by (cases "wid u = i") simp_all
  qed
  have mx: "Max (zIndex ` set (map ?f ?ws)) = maxZ ?ws + 1"
    using top bound by (intro Max_eqI) auto
  have a: "\<forall>w \<in> set (map ?f ?ws). wid w = i \<longrightarrow> zIndex w = Max (zIndex ` set (map ?f ?ws))"
  proof (intro ballI impI)
    fix w assume w: "w \<in> set (map ?f ?ws)" "wid w = i"
    from w(1) obtain u where u: "u \<in> set ?ws" "w = ?f u" by auto
    have "wid u = i" using u(2) w(2) by (cases "wid u = i") simp_all
    then have "zIndex w = maxZ ?ws + 1" using u(2) by simp
    then show "zIndex w = Max (zIndex ` set (map ?f ?ws))" using mx by simp
  qed
  have b: "length (map ?f ?ws) = length ?ws" by simp
  have c: "\<forall>k < length ?ws. wid (?ws ! k) \<noteq> i \<longrightarrow> map ?f ?ws ! k = ?ws ! k"
    by simp
  show ?thesis unfolding ws' by (intro conjI a b c)
qed

theorem bringToFront_maximal_witness:
  "''chat-1'' \<in> wid ` set (windows twoWindows)
   \<and> zIndex (windows (bringToFront ''chat-1'' twoWindows) ! 0)
       = Max (zIndex ` set (windows (bringToFront ''chat-1'' twoWindows)))
   \<and> zIndex (windows (bringToFront ''chat-1'' twoWindows) ! 0) = 3
   \<and> windows (bringToFront ''chat-1'' twoWindows) ! 1 = researchWin"
proof -
  have h: "''chat-1'' \<in> wid ` set (windows twoWindows)"
    by (simp add: twoWindows_def chatWin_def)
  note t = bringToFront_maximal [OF h]
  have ws: "windows (bringToFront ''chat-1'' twoWindows) = [chatWin\<lparr>zIndex := 3\<rparr>, researchWin]"
    by (simp add: eval_defs)
  have m: "chatWin\<lparr>zIndex := 3\<rparr> \<in> set (windows (bringToFront ''chat-1'' twoWindows))"
    unfolding ws by simp
  have i: "wid (chatWin\<lparr>zIndex := 3\<rparr>) = ''chat-1''"
    by (simp add: chatWin_def)
  have a: "zIndex (chatWin\<lparr>zIndex := 3\<rparr>)
             = Max (zIndex ` set (windows (bringToFront ''chat-1'' twoWindows)))"
    using t m i by blast
  have k: "(1::nat) < length (windows twoWindows)"
    by (simp add: twoWindows_def)
  have n: "wid (windows twoWindows ! 1) \<noteq> ''chat-1''"
    by (simp add: twoWindows_def researchWin_def)
  have c: "windows (bringToFront ''chat-1'' twoWindows) ! 1 = windows twoWindows ! 1"
    using t k n by blast
  have r: "windows twoWindows ! 1 = researchWin"
    by (simp add: twoWindows_def)
  have z: "windows (bringToFront ''chat-1'' twoWindows) ! 0 = chatWin\<lparr>zIndex := 3\<rparr>"
    unfolding ws by simp
  show ?thesis
    unfolding z using h a c r by simp
qed

section \<open>Focus after the focused window is removed\<close>

text \<open>
  C8 (as stated). The specification has the focus cleared whenever the window list
  changes so that the focused id is no longer in it and the list is empty. Logout is
  such a change: \<open>handleLogout\<close> empties the list and does not touch the focused id,
  and the effect does nothing on an empty list. After opening the chat window and
  logging out, the list is empty and the focused id is still the chat window's.
\<close>

theorem logout_keeps_focus_counterexample:
  "map wid (windows (run [Open ''chat'' 1] initialState)) = [''chat-1'']
   \<and> activeWindowId (run [Open ''chat'' 1] initialState) = Some ''chat-1''
   \<and> windows (autoFocus (handleLogout (run [Open ''chat'' 1] initialState))) = []
   \<and> activeWindowId (autoFocus (handleLogout (run [Open ''chat'' 1] initialState)))
       = Some ''chat-1''"
  unfolding run_open_chat
  by (simp add: handleLogout_def autoFocus_def oneWindow_def chatWin_def)

text \<open>
  C8 (amended). If one of the host operations \<open>open\<close>, \<open>close\<close>, \<open>focus\<close>,
  \<open>minimize\<close>, \<open>maximize\<close>, \<open>restore\<close>, \<open>move\<close> and \<open>resize\<close>, followed by the
  auto-focus effect, takes the focused id out of the window list (only \<open>close\<close> of the
  focused window does), the focused id afterwards is that of the last record of the list
  when the list is not empty, and \<open>null\<close> otherwise. After opening the chat window,
  opening the research window and closing the chat window, the focused id is the
  research window's. The effect changes nothing when the list is empty, and logout
  empties the list and leaves the focused id as it was.
\<close>

theorem focus_after_removal:
  "(activeWindowId st = Some a \<and> a \<in> wid ` set (windows st)
      \<and> a \<notin> wid ` set (windows (hostStep op st))
    \<longrightarrow> activeWindowId (hostStep op st) =
          (if windows (hostStep op st) = [] then None
           else Some (wid (last (windows (hostStep op st))))))
   \<and> activeWindowId
        (run [Open ''chat'' 1, Open ''research'' 2, Close ''chat-1''] initialState)
       = Some ''research-2''
   \<and> (windows st = [] \<longrightarrow> autoFocus st = st)
   \<and> windows (autoFocus (handleLogout st)) = []
   \<and> activeWindowId (autoFocus (handleLogout st)) = activeWindowId st"
proof (intro conjI impI)
  show "windows (autoFocus (handleLogout st)) = []"
    by (rule windows_handleLogout)
  show "activeWindowId (autoFocus (handleLogout st)) = activeWindowId st"
    by (rule activeWindowId_handleLogout)
next
  assume "windows st = []"
  then show "autoFocus st = st" by (rule autoFocus_empty)
next
  assume h: "activeWindowId st = Some a \<and> a \<in> wid ` set (windows st)
      \<and> a \<notin> wid ` set (windows (hostStep op st))"
  then have act: "activeWindowId st = Some a" and pre: "a \<in> wid ` set (windows st)"
    and post: "a \<notin> wid ` set (windows (applyOp op st))"
    by (simp_all add: hostStep_def windows_autoFocus)
  have "op = Close a"
  proof (rule ccontr)
    assume ne: "op \<noteq> Close a"
    show False
    proof (cases "\<exists>i. op = Close i")
      case True
      then obtain i where i: "op = Close i" by blast
      with ne have "a \<noteq> i" by auto
      from closeWindow_keeps_others [OF pre this] post show False by (simp add: i)
    next
      case False
      then have "\<forall>i. op \<noteq> Close i" by blast
      from wid_applyOp_subset [OF this, of st] pre post show False by blast
    qed
  qed
  then show "activeWindowId (hostStep op st) =
          (if windows (hostStep op st) = [] then None
           else Some (wid (last (windows (hostStep op st)))))"
    using hostStep_close_focused [OF act] by simp
next
  have "run [Open ''chat'' 1, Open ''research'' 2, Close ''chat-1''] initialState
          = hostStep (Close ''chat-1'') (run [Open ''chat'' 1, Open ''research'' 2] initialState)"
    by (simp add: run_def)
  also have "\<dots> = hostStep (Close ''chat-1'') twoWindows"
    by (simp only: run_open_chat_research)
  finally show "activeWindowId
        (run [Open ''chat'' 1, Open ''research'' 2, Close ''chat-1''] initialState)
       = Some ''research-2''"
    by (simp add: hostStep_def closeWindow_def autoFocus_def twoWindows_def chatWin_def
        researchWin_def)
qed

theorem focus_after_removal_witness:
  "activeWindowId twoWindows = Some ''chat-1''
   \<and> ''chat-1'' \<in> wid ` set (windows twoWindows)
   \<and> ''chat-1'' \<notin> wid ` set (windows (hostStep (Close ''chat-1'') twoWindows))
   \<and> windows (hostStep (Close ''chat-1'') twoWindows) = [researchWin]
   \<and> activeWindowId (hostStep (Close ''chat-1'') twoWindows) = Some (wid researchWin)"
proof -
  note t = focus_after_removal [of twoWindows "''chat-1''" "Close ''chat-1''"]
  have a: "activeWindowId twoWindows = Some ''chat-1''" by (simp add: twoWindows_def)
  have p: "''chat-1'' \<in> wid ` set (windows twoWindows)"
    by (simp add: twoWindows_def chatWin_def)
  have ws: "windows (hostStep (Close ''chat-1'') twoWindows) = [researchWin]"
    by (simp add: hostStep_def windows_autoFocus closeWindow_def twoWindows_def chatWin_def
        researchWin_def)
  have q: "''chat-1'' \<notin> wid ` set (windows (hostStep (Close ''chat-1'') twoWindows))"
    by (simp only: ws) (simp add: researchWin_def)
  have "activeWindowId (hostStep (Close ''chat-1'') twoWindows) =
          (if windows (hostStep (Close ''chat-1'') twoWindows) = [] then None
           else Some (wid (last (windows (hostStep (Close ''chat-1'') twoWindows)))))"
    using t a p q by blast
  then have f: "activeWindowId (hostStep (Close ''chat-1'') twoWindows) = Some (wid researchWin)"
    by (simp only: ws) simp
  show ?thesis by (rule conjI [OF a conjI [OF p conjI [OF q conjI [OF ws f]]]])
qed

section \<open>Dragging\<close>

text \<open>
  C9. Pointer-down on the title bar of a frame that is neither minimized nor maximized
  puts the frame in dragging mode and stores the pointer position minus the frame's
  top-left corner (as \<open>getBoundingClientRect\<close> reports it). Every pointer-move that
  follows, with the frame not resizing, sets the position of the record with the frame's
  id to the pointer position minus that stored offset. With the window at \<open>(100, 100)\<close>,
  its frame's corner reported there, the pointer going down at \<open>(120, 115)\<close> and moving
  to \<open>(200, 115)\<close>, the new position is \<open>(180, 100)\<close>. (The mouse-down also reaches
  the frame's own handler, a second \<open>bringToFront\<close>; it changes stacking indices only
  and is left out of the scenario.)
\<close>

theorem drag_keeps_pointer_offset:
  "(\<not> minimized props \<and> \<not> maximized props \<and> \<not> resizing fs \<longrightarrow>
      dragging (fst (startDrag props (px, py) (rleft, rtop) (fs, st)))
    \<and> dragOffset (fst (startDrag props (px, py) (rleft, rtop) (fs, st))) = (px - rleft, py - rtop)
    \<and> (\<forall>w \<in> set (windows
              (handleMove (fst (startDrag props (px, py) (rleft, rtop) (fs, st))) props (qx, qy)
                 (autoFocus (snd (startDrag props (px, py) (rleft, rtop) (fs, st)))))).
          wid w = wid props \<longrightarrow> x w = qx - (px - rleft) \<and> y w = qy - (py - rtop)))
   \<and> map (\<lambda>w. (x w, y w)) (windows draggedChat) = [(100, 100)]
   \<and> map (\<lambda>w. (x w, y w))
        (windows
          (autoFocus
            (handleMove (fst (startDrag draggedWin (120, 115) (100, 100) (initialFrame, draggedChat)))
               draggedWin (200, 115)
               (autoFocus (snd (startDrag draggedWin (120, 115) (100, 100) (initialFrame, draggedChat)))))))
       = [(180, 100)]"
proof (intro conjI impI ballI)
  assume h: "\<not> minimized props \<and> \<not> maximized props \<and> \<not> resizing fs"
  let ?fs1 = "fs\<lparr>dragOffset := (px - rleft, py - rtop), dragging := True\<rparr>"
  have sd: "startDrag props (px, py) (rleft, rtop) (fs, st) = (?fs1, bringToFront (wid props) st)"
    using h by (simp add: startDrag_begins)
  show "dragging (fst (startDrag props (px, py) (rleft, rtop) (fs, st)))"
    by (simp add: sd)
  show "dragOffset (fst (startDrag props (px, py) (rleft, rtop) (fs, st))) = (px - rleft, py - rtop)"
    by (simp add: sd)
  fix w
  assume w: "w \<in> set (windows
              (handleMove (fst (startDrag props (px, py) (rleft, rtop) (fs, st))) props (qx, qy)
                 (autoFocus (snd (startDrag props (px, py) (rleft, rtop) (fs, st))))))"
    and i: "wid w = wid props"
  have hm: "handleMove ?fs1 props (qx, qy) (autoFocus (bringToFront (wid props) st)) =
          moveWindow (wid props) (qx - (px - rleft), qy - (py - rtop))
            (autoFocus (bringToFront (wid props) st))"
    using h by (simp add: handleMove_dragging)
  from w have "w \<in> set (windows (moveWindow (wid props) (qx - (px - rleft), qy - (py - rtop))
            (autoFocus (bringToFront (wid props) st))))"
    by (simp only: sd fst_conv snd_conv hm)
  from moveWindow_sets [OF this i] have xy: "x w = qx - (px - rleft) \<and> y w = qy - (py - rtop)"
    by simp
  show "x w = qx - (px - rleft)" using xy by (rule conjunct1)
  show "y w = qy - (py - rtop)" using xy by (rule conjunct2)
next
  show "map (\<lambda>w. (x w, y w)) (windows draggedChat) = [(100, 100)]"
    by (simp add: draggedChat_def draggedWin_def)
next
  have sd: "startDrag draggedWin (120, 115) (100, 100) (initialFrame, draggedChat) =
          (initialFrame\<lparr>dragOffset := (20, 15), dragging := True\<rparr>,
           bringToFront ''chat-1'' draggedChat)"
    by (simp add: startDrag_def draggedWin_def chatWin_def)
  have bf: "autoFocus (bringToFront ''chat-1'' draggedChat)
          = \<lparr>windows = [draggedWin\<lparr>zIndex := 2\<rparr>], activeWindowId = Some ''chat-1''\<rparr>"
    by (simp add: autoFocus_def bringToFront_def draggedChat_def draggedWin_def chatWin_def
        maxZ_def zOrZero_def)
  have hm: "handleMove (initialFrame\<lparr>dragOffset := (20, 15), dragging := True\<rparr>) draggedWin
              (200, 115) \<lparr>windows = [draggedWin\<lparr>zIndex := 2\<rparr>], activeWindowId = Some ''chat-1''\<rparr>
          = moveWindow ''chat-1'' (180, 100)
              \<lparr>windows = [draggedWin\<lparr>zIndex := 2\<rparr>], activeWindowId = Some ''chat-1''\<rparr>"
    by (simp add: handleMove_def initialFrame_def draggedWin_def chatWin_def)
  show "map (\<lambda>w. (x w, y w))
        (windows
          (autoFocus
            (handleMove (fst (startDrag draggedWin (120, 115) (100, 100) (initialFrame, draggedChat)))
               draggedWin (200, 115)
               (autoFocus (snd (startDrag draggedWin (120, 115) (100, 100) (initialFrame, draggedChat)))))))
       = [(180, 100)]"
    by (simp only: sd fst_conv snd_conv bf hm windows_autoFocus)
       (simp add: moveWindow_def draggedWin_def chatWin_def)
qed

theorem drag_keeps_pointer_offset_witness:
  "\<not> minimized draggedWin \<and> \<not> maximized draggedWin \<and> \<not> resizing initialFrame
   \<and> dragOffset (fst (startDrag draggedWin (120, 115) (100, 100) (initialFrame, draggedChat)))
       = (20, 15)
   \<and> draggedWin\<lparr>zIndex := 2, x := 180, y := 100\<rparr>
       \<in> set (windows
              (handleMove (fst (startDrag draggedWin (120, 115) (100, 100) (initialFrame, draggedChat)))
                 draggedWin (200, 115)
                 (autoFocus (snd (startDrag draggedWin (120, 115) (100, 100) (initialFrame, draggedChat))))))
   \<and> x (draggedWin\<lparr>zIndex := 2, x := 180, y := 100\<rparr>) = 200 - (120 - 100)
   \<and> y (draggedWin\<lparr>zIndex := 2, x := 180, y := 100\<rparr>) = 115 - (115 - 100)"
proof -
  note t = drag_keeps_pointer_offset
    [of draggedWin initialFrame 120 115 100 100 draggedChat 200 115]
  have h1: "\<not> minimized draggedWin" by (simp add: draggedWin_def chatWin_def)
  have h2: "\<not> maximized draggedWin" by (simp add: draggedWin_def chatWin_def)
  have h3: "\<not> resizing initialFrame" by (simp add: initialFrame_def)
  have o: "dragOffset (fst (startDrag draggedWin (120, 115) (100, 100) (initialFrame, draggedChat)))
       = (120 - 100, 115 - 100)"
    using t h1 h2 h3 by blast
  then have o': "dragOffset (fst (startDrag draggedWin (120, 115) (100, 100) (initialFrame, draggedChat)))
       = (20, 15)"
    by simp
  have sd: "startDrag draggedWin (120, 115) (100, 100) (initialFrame, draggedChat) =
          (initialFrame\<lparr>dragOffset := (20, 15), dragging := True\<rparr>,
           bringToFront ''chat-1'' draggedChat)"
    by (simp add: startDrag_def draggedWin_def chatWin_def)
  have bf: "autoFocus (bringToFront ''chat-1'' draggedChat)
          = \<lparr>windows = [draggedWin\<lparr>zIndex := 2\<rparr>], activeWindowId = Some ''chat-1''\<rparr>"
    by (simp add: autoFocus_def bringToFront_def draggedChat_def draggedWin_def chatWin_def
        maxZ_def zOrZero_def)
  have hm: "handleMove (initialFrame\<lparr>dragOffset := (20, 15), dragging := True\<rparr>) draggedWin
              (200, 115) \<lparr>windows = [draggedWin\<lparr>zIndex := 2\<rparr>], activeWindowId = Some ''chat-1''\<rparr>
          = moveWindow ''chat-1'' (180, 100)
              \<lparr>windows = [draggedWin\<lparr>zIndex := 2\<rparr>], activeWindowId = Some ''chat-1''\<rparr>"
    by (simp add: handleMove_def initialFrame_def draggedWin_def chatWin_def)
  have m: "draggedWin\<lparr>zIndex := 2, x := 180, y := 100\<rparr>
       \<in> set (windows
              (handleMove (fst (startDrag draggedWin (120, 115) (100, 100) (initialFrame, draggedChat)))
                 draggedWin (200, 115)
                 (autoFocus (snd (startDrag draggedWin (120, 115) (100, 100) (initialFrame, draggedChat))))))"
    by (simp only: sd fst_conv snd_conv bf hm)
       (simp add: moveWindow_def draggedWin_def chatWin_def)
  have i: "wid (draggedWin\<lparr>zIndex := 2, x := 180, y := 100\<rparr>) = wid draggedWin" by simp
  have p: "x (draggedWin\<lparr>zIndex := 2, x := 180, y := 100\<rparr>) = 200 - (120 - 100)
         \<and> y (draggedWin\<lparr>zIndex := 2, x := 180, y := 100\<rparr>) = 115 - (115 - 100)"
    using t h1 h2 h3 m i by blast
  show ?thesis
    by (rule conjI [OF h1 conjI [OF h2 conjI [OF h3 conjI [OF o' conjI [OF m p]]]]])
qed

section \<open>Clicking a taskbar button\<close>

text \<open>
  C10. For a record \<open>win\<close> of the list, a click on its taskbar button does exactly one
  of three things. If \<open>win\<close> is minimized, it is \<open>restoreWindow\<close>: the record has
  \<open>minimized\<close> cleared and the top stacking index, and it is the focused window.
  Otherwise, if \<open>win\<close> is the focused window, it is \<open>minimizeWindow\<close>: the record has
  \<open>minimized\<close> set. Otherwise it is \<open>bringToFront\<close>: the record has the top stacking
  index and is the focused window. The states are those after the effect has run.
\<close>

theorem taskbar_click_action:
  assumes "win \<in> set (windows st)"
  shows "(minimized win \<longrightarrow>
            taskbarClick win st = restoreWindow (wid win) st
          \<and> windows (autoFocus (taskbarClick win st)) =
              map (\<lambda>w. if wid w = wid win
                        then w\<lparr>minimized := False,
                               zIndex := Max (insert 0 (zIndex ` set (windows st))) + 1\<rparr>
                        else w) (windows st)
          \<and> activeWindowId (autoFocus (taskbarClick win st)) = Some (wid win))
       \<and> (\<not> minimized win \<and> activeWindowId st = Some (wid win) \<longrightarrow>
            taskbarClick win st = minimizeWindow (wid win) st
          \<and> windows (autoFocus (taskbarClick win st)) =
              map (\<lambda>w. if wid w = wid win then w\<lparr>minimized := True\<rparr> else w) (windows st))
       \<and> (\<not> minimized win \<and> activeWindowId st \<noteq> Some (wid win) \<longrightarrow>
            taskbarClick win st = bringToFront (wid win) st
          \<and> windows (autoFocus (taskbarClick win st)) =
              map (\<lambda>w. if wid w = wid win
                        then w\<lparr>zIndex := Max (insert 0 (zIndex ` set (windows st))) + 1\<rparr>
                        else w) (windows st)
          \<and> activeWindowId (autoFocus (taskbarClick win st)) = Some (wid win))"
proof (intro conjI impI)
  assume m: "minimized win"
  show t: "taskbarClick win st = restoreWindow (wid win) st"
    using m by (simp add: taskbarClick_def)
  show "windows (autoFocus (taskbarClick win st)) =
              map (\<lambda>w. if wid w = wid win
                        then w\<lparr>minimized := False,
                               zIndex := Max (insert 0 (zIndex ` set (windows st))) + 1\<rparr>
                        else w) (windows st)"
    by (simp only: t windows_autoFocus windows_restoreWindow maxZ_Max)
  have "autoFocus (restoreWindow (wid win) st) = restoreWindow (wid win) st"
    by (rule autoFocus_present [OF activeWindowId_restoreWindow
          present_after [OF assms wid_restoreWindow]])
  then show "activeWindowId (autoFocus (taskbarClick win st)) = Some (wid win)"
    by (simp only: t activeWindowId_restoreWindow)
next
  assume a: "\<not> minimized win \<and> activeWindowId st = Some (wid win)"
  show t: "taskbarClick win st = minimizeWindow (wid win) st"
    using a by (simp add: taskbarClick_def)
  show "windows (autoFocus (taskbarClick win st)) =
              map (\<lambda>w. if wid w = wid win then w\<lparr>minimized := True\<rparr> else w) (windows st)"
    by (simp only: t windows_autoFocus) (simp add: minimizeWindow_def)
next
  assume a: "\<not> minimized win \<and> activeWindowId st \<noteq> Some (wid win)"
  show t: "taskbarClick win st = bringToFront (wid win) st"
    using a by (simp add: taskbarClick_def)
  show "windows (autoFocus (taskbarClick win st)) =
              map (\<lambda>w. if wid w = wid win
                        then w\<lparr>zIndex := Max (insert 0 (zIndex ` set (windows st))) + 1\<rparr>
                        else w) (windows st)"
    by (simp only: t windows_autoFocus) (simp add: bringToFront_def maxZ_Max)
  have f: "activeWindowId (bringToFront (wid win) st) = Some (wid win)"
    by (simp add: bringToFront_def)
  have "autoFocus (bringToFront (wid win) st) = bringToFront (wid win) st"
    by (rule autoFocus_present [OF f present_after [OF assms wid_bringToFront]])
  then show "activeWindowId (autoFocus (taskbarClick win st)) = Some (wid win)"
    by (simp only: t f)
qed

theorem taskbar_click_action_witness:
  "researchWin \<in> set (windows twoWindows)
   \<and> \<not> minimized researchWin
   \<and> activeWindowId twoWindows \<noteq> Some (wid researchWin)
   \<and> taskbarClick researchWin twoWindows = bringToFront (wid researchWin) twoWindows
   \<and> activeWindowId (autoFocus (taskbarClick researchWin twoWindows)) = Some (wid researchWin)"
proof -
  have m: "researchWin \<in> set (windows twoWindows)" by (simp add: twoWindows_def)
  note t = taskbar_click_action [OF m]
  have n: "\<not> minimized researchWin" by (simp add: researchWin_def)
  have a: "activeWindowId twoWindows \<noteq> Some (wid researchWin)"
    by (simp add: twoWindows_def researchWin_def)
  have b: "taskbarClick researchWin twoWindows = bringToFront (wid researchWin) twoWindows"
    using t n a by blast
  have f: "activeWindowId (autoFocus (taskbarClick researchWin twoWindows))
             = Some (wid researchWin)"
    using t n a by blast
  show ?thesis by (rule conjI [OF m conjI [OF n conjI [OF a conjI [OF b f]]]])
qed

end
